theory Spec2Isabelle
  imports Main "HOL-Library.Word"
begin

unbundle bit_operations_syntax

section \<open>Data model of \<^verbatim>\<open>packet.go\<close>\<close>

type_synonym byte = "8 word"

text \<open>
  Errors of the standard \<^verbatim>\<open>io\<close> package that a reader or \<^verbatim>\<open>io.ReadFull\<close> can
  report, with their \<^verbatim>\<open>Error()\<close> texts.
\<close>

datatype ioerr = EOF | ErrUnexpectedEOF | OtherIOError string

fun Error_text :: "ioerr \<Rightarrow> string" where
  "Error_text EOF = ''EOF''"
| "Error_text ErrUnexpectedEOF = ''unexpected EOF''"
| "Error_text (OtherIOError m) = m"

text \<open>
  Modelled from the spec: the error constructors \<^verbatim>\<open>errInvalidMagic\<close>,
  \<^verbatim>\<open>errIncompletePacket\<close>, \<^verbatim>\<open>errInvalidKey\<close>, \<^verbatim>\<open>errInvalidPadding\<close> and
  \<^verbatim>\<open>errFlagNotSupported\<close> are declared outside \<^verbatim>\<open>packet.go\<close>; they are the error
  kinds of section 7 of the specification. \<open>IOErr\<close> is an error of the byte source
  handed on as it is, \<open>SnappyErr\<close> an error value of \<^verbatim>\<open>snappy.Decode\<close>, and
  \<open>RuntimePanic\<close> a Go run-time panic, which is not a returned error.
\<close>

datatype error =
    ErrInvalidMagic
  | ErrIncompletePacket string
  | ErrInvalidKey
  | ErrInvalidPadding string
  | ErrFlagNotSupported string
  | IOErr ioerr
  | SnappyErr string
  | RuntimePanic string

fun is_panic :: "error + 'a \<Rightarrow> bool" where
  "is_panic (Inl (RuntimePanic m)) = True"
| "is_panic r = False"

text \<open>
  \<open>returns_error\<close>: the call came back with a non-nil \<^verbatim>\<open>error\<close> value (and did not
  panic).
\<close>

fun returns_error :: "error + 'a \<Rightarrow> bool" where
  "returns_error (Inl (RuntimePanic m)) = False"
| "returns_error (Inl e) = True"
| "returns_error (Inr v) = False"

record Packet =
  PacketVersion :: "32 word"
  PayloadVersion :: "32 word"
  MAC :: "byte list"
  Flags :: "16 word"
  IV :: "byte list"
  Payload :: "byte list"

text \<open>The zero value \<^verbatim>\<open>&Packet{}\<close>; a nil slice is the empty list.\<close>

definition zero_Packet :: Packet where
  "zero_Packet = \<lparr>PacketVersion = 0, PayloadVersion = 0, MAC = [], Flags = 0,
     IV = [], Payload = []\<rparr>"

datatype fieldName =
  hMagic | hPacketVersion | hMAC | hFlags | hIV | hPayloadVersion | hPayloadLength

definition Encrypted :: "16 word" where "Encrypted = 1"
definition Compressed :: "16 word" where "Compressed = 2"
definition SnappyCompressed :: "16 word" where "SnappyCompressed = 4"

definition fields :: "(fieldName \<times> nat) list" where
  "fields = [(hMagic, 4), (hPacketVersion, 4), (hMAC, 6), (hFlags, 2), (hIV, 16),
     (hPayloadVersion, 4), (hPayloadLength, 4)]"

definition hlen :: nat where
  "hlen = 4 + 4 + 6 + 2 + 16 + 4 + 4"

section \<open>Slices and big-endian integers\<close>

text \<open>
  \<^verbatim>\<open>b[lo:hi]\<close> and \<^verbatim>\<open>b[i]\<close> on a slice whose capacity is its length. Go computes
  the bounds as signed integers and panics at run time unless \<open>0 \<le> lo \<le> hi \<le> len(b)\<close>,
  respectively \<open>0 \<le> i < len(b)\<close>.
\<close>

definition subslice :: "byte list \<Rightarrow> int \<Rightarrow> int \<Rightarrow> error + byte list" where
  "subslice b lo hi =
     (if 0 \<le> lo \<and> lo \<le> hi \<and> hi \<le> int (length b)
      then Inr (take (nat (hi - lo)) (drop (nat lo) b))
      else Inl (RuntimePanic ''slice bounds out of range''))"

definition index :: "byte list \<Rightarrow> int \<Rightarrow> error + byte" where
  "index b i =
     (if 0 \<le> i \<and> i < int (length b) then Inr (b ! nat i)
      else Inl (RuntimePanic ''index out of range''))"

text \<open>
  \<^verbatim>\<open>binary.BigEndian.Uint32\<close> and \<^verbatim>\<open>Uint16\<close> read the first bytes of the slice and
  panic on a shorter one.
\<close>

fun BigEndian_Uint32 :: "byte list \<Rightarrow> error + 32 word" where
  "BigEndian_Uint32 (b0 # b1 # b2 # b3 # bs) =
     Inr (ucast b3 OR push_bit 8 (ucast b2) OR push_bit 16 (ucast b1)
          OR push_bit 24 (ucast b0))"
| "BigEndian_Uint32 bs = Inl (RuntimePanic ''index out of range'')"

fun BigEndian_Uint16 :: "byte list \<Rightarrow> error + 16 word" where
  "BigEndian_Uint16 (b0 # b1 # bs) = Inr (ucast b1 OR push_bit 8 (ucast b0))"
| "BigEndian_Uint16 bs = Inl (RuntimePanic ''index out of range'')"

definition bytes_of :: "string \<Rightarrow> byte list" where
  "bytes_of s = map of_char s"

section \<open>The byte source\<close>

text \<open>
  An \<^verbatim>\<open>io.Reader\<close> is modelled by the answers it is going to give: a list of chunks,
  each a run of bytes and the error (if any) the reader reports with the last of them.
  \<open>Read r p\<close> is one call \<^verbatim>\<open>r.Read(p)\<close> on a buffer \<open>p\<close>: it gives the count, the
  error, the buffer as the call leaves it and the reader that remains. A chunk longer than
  the buffer is handed out in pieces; a reader with nothing left answers \<open>(0, EOF)\<close>.
  A chunk \<open>([], None)\<close> is a call that returns \<open>(0, nil)\<close>. Every run of
  \<^verbatim>\<open>ReadPacket\<close> that returns makes finitely many calls, so it is the run on the list
  of the answers it got.
\<close>

type_synonym reader = "(byte list \<times> ioerr option) list"

fun Read :: "reader \<Rightarrow> byte list \<Rightarrow> (nat \<times> ioerr option) \<times> byte list \<times> reader" where
  "Read [] p = ((0, Some EOF), p, [])"
| "Read ((c, e) # rest) p =
     (if length c \<le> length p then ((length c, e), c @ drop (length c) p, rest)
      else ((length p, None), take (length p) c, (drop (length p) c, e) # rest))"

text \<open>All the bytes a reader still holds, in order.\<close>

definition stream :: "reader \<Rightarrow> byte list" where
  "stream r = concat (map fst r)"

text \<open>
  \<^verbatim>\<open>io.ReadFull(r, buf)\<close> is \<^verbatim>\<open>io.ReadAtLeast(r, buf, len(buf))\<close>, whose loop is
  \<^verbatim>\<open>for n < min && err == nil { nn, err = r.Read(buf[n:]); n += nn }\<close>
  with \<open>min = len(buf)\<close>.
\<close>

function ReadFull_loop ::
  "reader \<Rightarrow> byte list \<Rightarrow> nat \<Rightarrow> ioerr option
     \<Rightarrow> (nat \<times> ioerr option) \<times> byte list \<times> reader" where
  "ReadFull_loop r buf n err =
     (if n < length buf \<and> err = None then
        (case Read r (drop n buf) of
           ((nn, err'), p', r') \<Rightarrow> ReadFull_loop r' (take n buf @ p') (n + nn) err')
      else ((n, err), buf, r))"
  by pat_completeness auto
termination
  apply (relation "measure (\<lambda>(r, buf, n, err).
           (if err = None then 1 + length r + (length buf - n) else 0))")
   apply simp
  subgoal for r
    by (cases r) (auto split: if_splits)
  done

text \<open>
  After the loop: \<^verbatim>\<open>if n >= min { err = nil } else if n > 0 && err == EOF
  { err = ErrUnexpectedEOF }\<close>.
\<close>

definition ReadFull :: "reader \<Rightarrow> byte list \<Rightarrow> (nat \<times> ioerr option) \<times> byte list \<times> reader" where
  "ReadFull r buf =
     (case ReadFull_loop r buf 0 None of
        ((n, err), buf', r') \<Rightarrow>
          (if n \<ge> length buf then ((n, None), buf', r')
           else if n > 0 \<and> err = Some EOF then ((n, Some ErrUnexpectedEOF), buf', r')
           else ((n, err), buf', r')))"

section \<open>\<^verbatim>\<open>ReadPacket\<close>\<close>

text \<open>\<^verbatim>\<open>func (p *Packet) update(name fieldName, data []byte)\<close>\<close>

fun update :: "Packet \<Rightarrow> fieldName \<Rightarrow> byte list \<Rightarrow> error + Packet" where
  "update p hPacketVersion data =
     (case BigEndian_Uint32 data of Inl e \<Rightarrow> Inl e
      | Inr v \<Rightarrow> Inr (p\<lparr>PacketVersion := v\<rparr>))"
| "update p hMAC data = Inr (p\<lparr>MAC := data\<rparr>)"
| "update p hFlags data =
     (case BigEndian_Uint16 data of Inl e \<Rightarrow> Inl e
      | Inr v \<Rightarrow> Inr (p\<lparr>Flags := v\<rparr>))"
| "update p hIV data = Inr (p\<lparr>IV := data\<rparr>)"
| "update p hPayloadVersion data =
     (case BigEndian_Uint32 data of Inl e \<Rightarrow> Inl e
      | Inr v \<Rightarrow> Inr (p\<lparr>PayloadVersion := v\<rparr>))"
| "update p name data = Inr p"

text \<open>
  The \<^verbatim>\<open>switch f.name\<close> inside the loop over \<^verbatim>\<open>fields\<close>: the magic is compared
  with \<^verbatim>\<open>"UBNT"\<close>, and the payload length allocates the payload buffer
  (\<^verbatim>\<open>make([]byte, val)\<close>, all zero).
\<close>

fun field_switch :: "Packet \<Rightarrow> fieldName \<Rightarrow> byte list \<Rightarrow> error + Packet" where
  "field_switch pkt hMagic cur =
     (if cur \<noteq> bytes_of ''UBNT'' then Inl ErrInvalidMagic else Inr pkt)"
| "field_switch pkt hPayloadLength cur =
     (case BigEndian_Uint32 cur of Inl e \<Rightarrow> Inl e
      | Inr val \<Rightarrow> Inr (pkt\<lparr>Payload := replicate (unat val) 0\<rparr>))"
| "field_switch pkt name cur = Inr pkt"

text \<open>
  The loop \<^verbatim>\<open>for _, f := range fields\<close> with its running offset \<^verbatim>\<open>off\<close>; an error
  leaves the loop and the function.
\<close>

fun read_fields ::
  "(fieldName \<times> nat) list \<Rightarrow> byte list \<Rightarrow> nat \<Rightarrow> Packet \<Rightarrow> error + Packet" where
  "read_fields [] head off pkt = Inr pkt"
| "read_fields ((name, len) # fs) head off pkt =
     (case subslice head (int off) (int off + int len) of
        Inl e \<Rightarrow> Inl e
      | Inr cur \<Rightarrow>
          (case field_switch pkt name cur of
             Inl e \<Rightarrow> Inl e
           | Inr pkt1 \<Rightarrow>
               (case (if name = hPayloadLength then Inr pkt1 else update pkt1 name cur) of
                  Inl e \<Rightarrow> Inl e
                | Inr pkt2 \<Rightarrow> read_fields fs head (off + len) pkt2)))"

text \<open>
  \<^verbatim>\<open>ReadPacket\<close> gives the packet or the error, and the reader as the call leaves it.
  A nil \<^verbatim>\<open>*Packet\<close> with an error is \<open>Inl\<close>.
\<close>

definition ReadPacket :: "reader \<Rightarrow> (error + Packet) \<times> reader" where
  "ReadPacket r =
     (case Read r (replicate hlen 0) of
        ((n, err), head, r1) \<Rightarrow>
          (case err of
             Some e \<Rightarrow> (Inl (IOErr e), r1)
           | None \<Rightarrow>
               if n \<noteq> hlen then (Inl (ErrIncompletePacket ''header too short''), r1)
               else
                 (case read_fields fields head 0 zero_Packet of
                    Inl e \<Rightarrow> (Inl e, r1)
                  | Inr pkt \<Rightarrow>
                      if length (Payload pkt) = 0
                      then (Inl (ErrIncompletePacket
                              ''header does not define payload length''), r1)
                      else
                        (case ReadFull r1 (Payload pkt) of
                           ((m, err2), buf, r2) \<Rightarrow>
                             (case err2 of
                                Some e \<Rightarrow> (Inl (ErrIncompletePacket (Error_text e)), r2)
                              | None \<Rightarrow> (Inr (pkt\<lparr>Payload := buf\<rparr>), r2))))))"

section \<open>\<^verbatim>\<open>Data\<close>: decrypting and decompressing\<close>

text \<open>
  The loop of \<^verbatim>\<open>pkcs7unpad\<close>,
  \<^verbatim>\<open>for i := 0; i < n; i++ { if b[len(b)-n+i] != c { return ... } }\<close>:
  \<open>Some e\<close> is the early return with an error, \<open>None\<close> the end of the loop.
\<close>

function pkcs7unpad_loop :: "byte list \<Rightarrow> byte \<Rightarrow> nat \<Rightarrow> nat \<Rightarrow> error option" where
  "pkcs7unpad_loop b c n i =
     (if i < n then
        (case index b (int (length b) - int n + int i) of
           Inl e \<Rightarrow> Some e
         | Inr x \<Rightarrow>
             if x \<noteq> c then Some (ErrInvalidPadding ''structure invalid'')
             else pkcs7unpad_loop b c n (i + 1))
      else None)"
  by pat_completeness auto
termination
  by (relation "measure (\<lambda>(b, c, n, i). n - i)") auto

definition pkcs7unpad :: "byte list \<Rightarrow> error + byte list" where
  "pkcs7unpad b =
     (if length b = 0 then Inl (ErrInvalidPadding ''no data'')
      else
        (case index b (int (length b) - 1) of
           Inl e \<Rightarrow> Inl e
         | Inr c \<Rightarrow>
             (let n = unat c in
              if n = 0 \<or> n > length b then Inl (ErrInvalidPadding ''data is not padded'')
              else
                (case pkcs7unpad_loop b c n 0 of
                   Some e \<Rightarrow> Inl e
                 | None \<Rightarrow> subslice b 0 (int (length b) - int n)))))"

text \<open>
  The two external collaborators are parameters. \<open>cipher\<close> is AES-128 in CBC mode,
  \<open>cbc key iv ciphertext\<close> the decrypted buffer (\<^verbatim>\<open>aes.NewCipher\<close>,
  \<^verbatim>\<open>cipher.NewCBCDecrypter\<close>, \<^verbatim>\<open>CryptBlocks\<close>); \<open>decoder\<close> is \<^verbatim>\<open>snappy.Decode(nil, _)\<close>,
  giving the decoded bytes or the text of its error. Each function returns, beside its
  result, the calls it made to them, in order.
\<close>

type_synonym cipher = "byte list \<Rightarrow> byte list \<Rightarrow> byte list \<Rightarrow> byte list"
type_synonym decoder = "byte list \<Rightarrow> string + byte list"

datatype call = CipherCall "byte list" "byte list" "byte list" | SnappyCall "byte list"

text \<open>
  \<^verbatim>\<open>decrypt\<close>. The copy of \<^verbatim>\<open>data\<close> into \<^verbatim>\<open>ciphertext\<close> is the same list.
  \<^verbatim>\<open>cipher.NewCBCDecrypter\<close> panics when the IV is not one block long.
\<close>

definition decrypt ::
  "cipher \<Rightarrow> byte list \<Rightarrow> byte list \<Rightarrow> byte list \<Rightarrow> (error + byte list) \<times> call list" where
  "decrypt cbc key iv data =
     (if length key \<noteq> 16 then (Inl ErrInvalidKey, [])
      else
        (let ciphertext = data in
         if length ciphertext mod 16 \<noteq> 0
         then (Inl (ErrInvalidPadding ''data is not padded''), [])
         else if length iv \<noteq> 16
         then (Inl (RuntimePanic ''cipher.NewCBCDecrypter: IV length must equal block size''),
               [CipherCall key iv ciphertext])
         else (pkcs7unpad (cbc key iv ciphertext), [CipherCall key iv ciphertext])))"

text \<open>\<^verbatim>\<open>deflate\<close>: \<^verbatim>\<open>snappy.Decode(nil, data[:len(data)-10])\<close>.\<close>

definition deflate :: "decoder \<Rightarrow> byte list \<Rightarrow> (error + byte list) \<times> call list" where
  "deflate snappy data =
     (case subslice data 0 (int (length data) - 10) of
        Inl e \<Rightarrow> (Inl e, [])
      | Inr d \<Rightarrow>
          (case snappy d of
             Inl m \<Rightarrow> (Inl (SnappyErr m), [SnappyCall d])
           | Inr out \<Rightarrow> (Inr out, [SnappyCall d])))"

text \<open>
  \<^verbatim>\<open>func (p *Packet) Data(key []byte) (res []byte, err error)\<close>. A panic of a callee
  unwinds through \<^verbatim>\<open>Data\<close>; \<^verbatim>\<open>return nil, nil\<close> is \<open>Inr []\<close>.
\<close>

definition Data ::
  "cipher \<Rightarrow> decoder \<Rightarrow> Packet \<Rightarrow> byte list \<Rightarrow> (error + byte list) \<times> call list" where
  "Data cbc snappy p key =
     (case (if Flags p AND Encrypted \<noteq> 0 then decrypt cbc key (IV p) (Payload p)
            else (Inr (Payload p), [])) of
        (Inl e, t1) \<Rightarrow> (Inl e, t1)
      | (Inr res, t1) \<Rightarrow>
          if Flags p AND Compressed \<noteq> 0
          then (Inl (ErrFlagNotSupported ''compressed''), t1)
          else if Flags p AND SnappyCompressed \<noteq> 0 then
            (case deflate snappy res of
               (r2, t2) \<Rightarrow>
                 if is_panic r2 then (r2, t1 @ t2)
                 else (case r2 of Inl e \<Rightarrow> (Inr [], t1 @ t2)
                       | Inr res2 \<Rightarrow> (Inr res2, t1 @ t2)))
          else (Inr res, t1))"

section \<open>Concrete inputs\<close>

text \<open>
  Stand-ins for the two collaborators and a few concrete packets and byte sources, used
  where a statement is instantiated: a cipher that leaves the buffer as it is, a decoder
  that rejects every input, a packet with given flags and payload, a header with given
  flags and payload length fields, and a byte source that holds one well-formed packet
  with payload \<^verbatim>\<open>hello\<close> followed by one more byte.
\<close>

definition id_cipher :: cipher where
  "id_cipher key iv data = data"

definition corrupt_decoder :: decoder where
  "corrupt_decoder d = Inl ''snappy: corrupt input''"

definition flagged_Packet :: "16 word \<Rightarrow> byte list \<Rightarrow> Packet" where
  "flagged_Packet f d = \<lparr>PacketVersion = 0, PayloadVersion = 0, MAC = replicate 6 0,
     Flags = f, IV = replicate 16 0, Payload = d\<rparr>"

definition header_with :: "byte list \<Rightarrow> byte list \<Rightarrow> byte list" where
  "header_with f l = bytes_of ''UBNT'' @ [0, 0, 0, 1] @ [1, 2, 3, 4, 5, 6] @ f
     @ replicate 16 0 @ [0, 0, 0, 2] @ l"

definition hello_reader :: reader where
  "hello_reader = [(header_with [0, 0] [0, 0, 0, 5], None), (bytes_of ''he'', None),
     (bytes_of ''llo!'', None)]"

definition hello_Packet :: Packet where
  "hello_Packet = \<lparr>PacketVersion = 1, PayloadVersion = 2, MAC = [1, 2, 3, 4, 5, 6],
     Flags = 0, IV = replicate 16 0, Payload = bytes_of ''hello''\<rparr>"

definition empty_payload_reader :: reader where
  "empty_payload_reader = [(header_with [0, 0] [0, 0, 0, 0], None)]"

section \<open>Auxiliary facts\<close>

declare ReadFull_loop.simps [simp del]
declare pkcs7unpad_loop.simps [simp del]

subsection \<open>Reading\<close>

lemma Read_props:
  assumes "Read r p = ((n, e), p', r1)"
  shows "n \<le> length p" and "length p' = length p" and "take n p' = take n (stream r)"
    and "stream r1 = drop n (stream r)"
  using assms by (cases r; auto simp: stream_def split: if_splits)+

lemma ReadFull_loop_props:
  assumes "ReadFull_loop r buf n err = ((n', err'), buf', r')" and "n \<le> length buf"
  shows "length buf' = length buf \<and> n \<le> n' \<and> n' \<le> length buf \<and>
         take n' buf' = take n buf @ take (n' - n) (stream r) \<and>
         stream r' = drop (n' - n) (stream r) \<and>
         (err' = None \<longrightarrow> n' = length buf)"
  using assms
proof (induction r buf n err rule: ReadFull_loop.induct)
  case (1 r buf n err)
  show ?case
  proof (cases "n < length buf \<and> err = None")
    case False
    with "1.prems" show ?thesis
      by (subst (asm) ReadFull_loop.simps) auto
  next
    case True
    obtain nn e1 p1 r1 where rd: "Read r (drop n buf) = ((nn, e1), p1, r1)"
      by (metis surj_pair)
    note R = Read_props[OF rd]
    let ?buf1 = "take n buf @ p1"
    from R(1,2) True have len1: "length ?buf1 = length buf" and n1: "n + nn \<le> length ?buf1"
      by auto
    from "1.prems"(1) True rd
    have run: "ReadFull_loop r1 ?buf1 (n + nn) e1 = ((n', err'), buf', r')"
      by (subst (asm) ReadFull_loop.simps) simp
    from "1.IH"[OF True rd[symmetric] refl refl run n1]
    have IH: "length buf' = length ?buf1" "n + nn \<le> n'" "n' \<le> length ?buf1"
      "take n' buf' = take (n + nn) ?buf1 @ take (n' - (n + nn)) (stream r1)"
      "stream r' = drop (n' - (n + nn)) (stream r1)"
      "err' = None \<longrightarrow> n' = length ?buf1"
      by auto
    have t1: "take (n + nn) ?buf1 = take n buf @ take nn (stream r)"
      using True R(3) by simp
    have split: "n' - n = nn + (n' - (n + nn))"
      using IH(2) by arith
    have "take n' buf' = take n buf @ take (n' - n) (stream r)"
      unfolding IH(4) t1 R(4) by (subst split) (simp add: take_add)
    moreover have "stream r' = drop (n' - n) (stream r)"
      unfolding IH(5) R(4) by (subst split) (simp add: add.commute)
    ultimately show ?thesis
      using IH(1,2,3,6) len1 by auto
  qed
qed

lemma ReadFull_success:
  assumes "ReadFull r buf = ((n, None), buf', r')"
  shows "buf' = take (length buf) (stream r)" and "length buf' = length buf"
    and "stream r' = drop (length buf) (stream r)"
proof -
  obtain n0 e0 where run: "ReadFull_loop r buf 0 None = ((n0, e0), buf', r')"
    using assms by (auto simp: ReadFull_def split: prod.splits if_splits)
  from assms run have full: "length buf \<le> n0 \<or> e0 = None"
    by (auto simp: ReadFull_def split: if_splits)
  from ReadFull_loop_props[OF run] have P: "length buf' = length buf" "n0 \<le> length buf"
    "take n0 buf' = take n0 (stream r)" "stream r' = drop n0 (stream r)"
    "e0 = None \<longrightarrow> n0 = length buf"
    by auto
  from full P(2,5) have n0: "n0 = length buf" by auto
  show "length buf' = length buf" by (rule P(1))
  show "buf' = take (length buf) (stream r)" using P(3) P(1) n0 by simp
  show "stream r' = drop (length buf) (stream r)" using P(4) n0 by simp
qed

subsection \<open>The header\<close>

lemma subslice_in_range:
  "off + len \<le> length b \<Longrightarrow>
   subslice b (int off) (int off + int len) = Inr (take len (drop off b))"
  by (simp add: subslice_def)

lemma BigEndian_Uint32_total:
  assumes "4 \<le> length xs"
  shows "\<exists>v. BigEndian_Uint32 xs = Inr v"
proof -
  from assms obtain b0 b1 b2 b3 bs where "xs = b0 # b1 # b2 # b3 # bs"
    by (cases xs; simp; rename_tac ys; case_tac ys; simp; rename_tac zs; case_tac zs; simp;
        rename_tac ws; case_tac ws; simp)
  then show ?thesis by simp
qed

lemma BigEndian_Uint16_total:
  assumes "2 \<le> length xs"
  shows "\<exists>v. BigEndian_Uint16 xs = Inr v"
proof -
  from assms obtain b0 b1 bs where "xs = b0 # b1 # bs"
    by (cases xs; simp; rename_tac ys; case_tac ys; simp)
  then show ?thesis by simp
qed

text \<open>
  On a header buffer of 40 bytes no slice and no integer read panics, and the loop over
  \<open>fields\<close> fails on the magic alone.
\<close>

lemma read_fields_header:
  assumes len: "length head = hlen"
  shows "read_fields fields head 0 zero_Packet =
    (if take 4 head \<noteq> bytes_of ''UBNT'' then Inl ErrInvalidMagic
     else Inr \<lparr>PacketVersion = projr (BigEndian_Uint32 (take 4 (drop 4 head))),
            PayloadVersion = projr (BigEndian_Uint32 (take 4 (drop 32 head))),
            MAC = take 6 (drop 8 head),
            Flags = projr (BigEndian_Uint16 (take 2 (drop 14 head))),
            IV = take 16 (drop 16 head),
            Payload = replicate (unat (projr (BigEndian_Uint32 (take 4 (drop 36 head))))) 0\<rparr>)"
proof -
  from len have l: "length head = 40" by (simp add: hlen_def)
  obtain v1 where v1: "BigEndian_Uint32 (take 4 (drop 4 head)) = Inr v1"
    using BigEndian_Uint32_total[of "take 4 (drop 4 head)"] l by auto
  obtain v2 where v2: "BigEndian_Uint16 (take 2 (drop 14 head)) = Inr v2"
    using BigEndian_Uint16_total[of "take 2 (drop 14 head)"] l by auto
  obtain v3 where v3: "BigEndian_Uint32 (take 4 (drop 32 head)) = Inr v3"
    using BigEndian_Uint32_total[of "take 4 (drop 32 head)"] l by auto
  obtain v4 where v4: "BigEndian_Uint32 (take 4 (drop 36 head)) = Inr v4"
    using BigEndian_Uint32_total[of "take 4 (drop 36 head)"] l by auto
  have s: "\<And>off len. off + len \<le> 40 \<Longrightarrow>
      subslice head (int off) (int off + int len) = Inr (take len (drop off head))"
    using subslice_in_range[of _ _ head] l by simp
  show ?thesis
    using s[of 0 4] s[of 4 4] s[of 8 6] s[of 14 2] s[of 16 16] s[of 32 4] s[of 36 4]
    by (simp add: fields_def zero_Packet_def v1 v2 v3 v4)
qed

lemma ReadPacket_after_header:
  assumes "Read r (replicate hlen 0) = ((hlen, None), head, r1)"
  shows "ReadPacket r =
    (case read_fields fields head 0 zero_Packet of
       Inl e \<Rightarrow> (Inl e, r1)
     | Inr pkt \<Rightarrow>
         if length (Payload pkt) = 0
         then (Inl (ErrIncompletePacket ''header does not define payload length''), r1)
         else
           (case ReadFull r1 (Payload pkt) of
              ((m, err2), buf, r2) \<Rightarrow>
                (case err2 of
                   Some e \<Rightarrow> (Inl (ErrIncompletePacket (Error_text e)), r2)
                 | None \<Rightarrow> (Inr (pkt\<lparr>Payload := buf\<rparr>), r2))))"
  by (simp add: ReadPacket_def assms)

lemma header_of_Read:
  assumes "Read r (replicate hlen 0) = ((hlen, None), head, r1)"
  shows "length head = hlen" and "head = take hlen (stream r)"
    and "stream r1 = drop hlen (stream r)"
  using Read_props[OF assms] by auto

lemma hello_run: "ReadPacket hello_reader = (Inr hello_Packet, [(bytes_of ''!'', None)])"
  by (simp add: ReadPacket_def hello_reader_def header_with_def hello_Packet_def hlen_def
      bytes_of_def fields_def zero_Packet_def subslice_def ReadFull_def ReadFull_loop.simps)

subsection \<open>Padding\<close>

lemma pkcs7unpad_loop_char:
  "n \<le> length b \<Longrightarrow>
   pkcs7unpad_loop b c n i =
     (if \<exists>j. i \<le> j \<and> j < n \<and> b ! (length b - n + j) \<noteq> c
      then Some (ErrInvalidPadding ''structure invalid'') else None)"
proof (induction b c n i rule: pkcs7unpad_loop.induct)
  case (1 b c n i)
  show ?case
  proof (cases "i < n")
    case False
    then show ?thesis
      by (subst pkcs7unpad_loop.simps) auto
  next
    case True
    with "1.prems" have idx: "index b (int (length b) - int n + int i) = Inr (b ! (length b - n + i))"
      by (auto simp: index_def nat_diff_distrib' nat_add_distrib intro!: arg_cong[where f="(!) b"])
    show ?thesis
    proof (cases "b ! (length b - n + i) = c")
      case False
      with True idx show ?thesis
        by (subst pkcs7unpad_loop.simps) auto
    next
      case eq: True
      have "pkcs7unpad_loop b c n i = pkcs7unpad_loop b c n (i + 1)"
        using True idx eq by (subst pkcs7unpad_loop.simps) simp
      also have "\<dots> = (if \<exists>j. i + 1 \<le> j \<and> j < n \<and> b ! (length b - n + j) \<noteq> c
          then Some (ErrInvalidPadding ''structure invalid'') else None)"
        using "1.IH"[OF True idx _ "1.prems"] eq by simp
      also have "(\<exists>j. i + 1 \<le> j \<and> j < n \<and> b ! (length b - n + j) \<noteq> c) \<longleftrightarrow>
                 (\<exists>j. i \<le> j \<and> j < n \<and> b ! (length b - n + j) \<noteq> c)"
        using eq by (metis Suc_eq_plus1 Suc_leD Suc_leI le_neq_implies_less)
      finally show ?thesis .
    qed
  qed
qed

lemma last_bytes_differ:
  assumes "n \<le> length b"
  shows "(\<exists>j. j < n \<and> b ! (length b - n + j) \<noteq> c) \<longleftrightarrow>
         (\<exists>x\<in>set (drop (length b - n) b). x \<noteq> c)"
proof
  assume "\<exists>j. j < n \<and> b ! (length b - n + j) \<noteq> c"
  then obtain j where j: "j < n" "b ! (length b - n + j) \<noteq> c" by blast
  from j(1) assms have "drop (length b - n) b ! j \<in> set (drop (length b - n) b)"
    by (intro nth_mem) simp
  moreover from j(1) assms have "drop (length b - n) b ! j = b ! (length b - n + j)"
    by simp
  ultimately show "\<exists>x\<in>set (drop (length b - n) b). x \<noteq> c"
    using j(2) by metis
next
  assume "\<exists>x\<in>set (drop (length b - n) b). x \<noteq> c"
  then obtain j where "j < length (drop (length b - n) b)" "drop (length b - n) b ! j \<noteq> c"
    by (auto simp: in_set_conv_nth)
  with assms show "\<exists>j. j < n \<and> b ! (length b - n + j) \<noteq> c"
    by (intro exI[of _ j]) auto
qed

lemma invalid_magic_after_header:
  assumes "Read r (replicate hlen 0) = ((hlen, None), head, r1)"
  shows "fst (ReadPacket r) = Inl ErrInvalidMagic \<longleftrightarrow> take 4 head \<noteq> bytes_of ''UBNT''"
  unfolding ReadPacket_after_header[OF assms] read_fields_header[OF header_of_Read(1)[OF assms]]
  by (simp split: prod.splits option.splits)

text \<open>
  A packet that \<^verbatim>\<open>ReadPacket\<close> returns has a payload of at least one byte, and the
  length field of its header is not 0.
\<close>

lemma returned_payload_nonempty:
  assumes "ReadPacket r = (Inr pkt, r2)"
  shows "Payload pkt \<noteq> []"
    and "BigEndian_Uint32 (take 4 (drop 36 (stream r))) \<noteq> Inr 0"
proof -
  obtain n err head r1 where rd: "Read r (replicate hlen 0) = ((n, err), head, r1)"
    by (metis surj_pair)
  from assms rd have "err = None" "n = hlen"
    by (auto simp: ReadPacket_def split: option.splits if_splits)
  with rd have rd': "Read r (replicate hlen 0) = ((hlen, None), head, r1)" by simp
  note H = header_of_Read[OF rd']
  have f36: "take 4 (drop 36 head) = take 4 (drop 36 (stream r))"
    by (subst H(2)) (simp add: hlen_def drop_take)
  obtain v where v: "BigEndian_Uint32 (take 4 (drop 36 head)) = Inr v"
    using BigEndian_Uint32_total[of "take 4 (drop 36 head)"] H(1) by (auto simp: hlen_def)
  from assms obtain pkt0 m buf where
    pkt0: "read_fields fields head 0 zero_Packet = Inr pkt0"
    and ne: "length (Payload pkt0) \<noteq> 0"
    and rf: "ReadFull r1 (Payload pkt0) = ((m, None), buf, r2)"
    and pkt: "pkt = pkt0\<lparr>Payload := buf\<rparr>"
    unfolding ReadPacket_after_header[OF rd']
    by (auto split: sum.splits if_splits prod.splits option.splits)
  from pkt0 have p0: "Payload pkt0 = replicate (unat v) 0"
    unfolding read_fields_header[OF H(1)] using v by (auto split: if_splits)
  from ReadFull_success(2)[OF rf] ne pkt show "Payload pkt \<noteq> []"
    by auto
  from p0 ne have "v \<noteq> 0" by auto
  with v f36 show "BigEndian_Uint32 (take 4 (drop 36 (stream r))) \<noteq> Inr 0"
    by simp
qed


text \<open>
  Packets with the SnappyCompressed flag and a payload of 5 or of 10 bytes come off the
  wire like any other.
\<close>

lemma snappy_packets_from_wire:
  "ReadPacket [(header_with [0, 4] [0, 0, 0, 5] @ bytes_of ''hello'', None)] =
     (Inr (hello_Packet\<lparr>Flags := 4\<rparr>), [])"
  "ReadPacket [(header_with [0, 4] [0, 0, 0, 10] @ replicate 10 0, None)] =
     (Inr (hello_Packet\<lparr>Flags := 4, Payload := replicate 10 0\<rparr>), [])"
  by (simp_all add: ReadPacket_def header_with_def hello_Packet_def hlen_def
      bytes_of_def fields_def zero_Packet_def subslice_def ReadFull_def ReadFull_loop.simps)

section \<open>The payload pipeline\<close>

text \<open>
  C1. The claim: when the snappy decoder fails on the input stripped of its last 10 bytes,
  \<^verbatim>\<open>Data\<close> returns an error. The code does not: where the bytes reaching the snappy
  step (the payload, or the decrypted payload) are at least 10 long and the decoder
  rejects them, \<^verbatim>\<open>Data\<close> executes \<^verbatim>\<open>return nil, nil\<close>, a nil result with a nil
  error, while the decryption branch just above hands its error on.
\<close>

theorem Data_swallows_decode_failure:
  assumes "Flags p AND SnappyCompressed \<noteq> 0" and "Flags p AND Compressed = 0"
    and "(if Flags p AND Encrypted \<noteq> 0 then fst (decrypt cbc key (IV p) (Payload p))
          else Inr (Payload p)) = Inr res"
    and "10 \<le> length res" and "snappy (take (length res - 10) res) = Inl m"
  shows "fst (Data cbc snappy p key) = Inr [] \<and> \<not> returns_error (fst (Data cbc snappy p key))"
  using assms
  by (auto simp: Data_def deflate_def subslice_def nat_diff_distrib'
      split: prod.splits sum.splits if_splits)

theorem Data_swallows_decode_failure_witness:
  "fst (Data id_cipher corrupt_decoder (flagged_Packet 4 (replicate 10 0)) []) = Inr [] \<and>
   \<not> returns_error (fst (Data id_cipher corrupt_decoder (flagged_Packet 4 (replicate 10 0)) []))"
  using Data_swallows_decode_failure [where p = "flagged_Packet 4 (replicate 10 0)"
      and cbc = id_cipher and snappy = corrupt_decoder and key = "[]"
      and res = "replicate 10 0" and m = "''snappy: corrupt input''"]
  by (simp add: flagged_Packet_def Encrypted_def Compressed_def SnappyCompressed_def
      corrupt_decoder_def)

text \<open>
  C2. The claim: with the SnappyCompressed flag set and fewer than 10 bytes reaching the
  snappy step, \<^verbatim>\<open>Data\<close> fails with an error and does not panic. The code does not:
  \<^verbatim>\<open>deflate\<close> slices \<^verbatim>\<open>data[:len(data)-10]\<close> with no check of the length, the upper
  bound is negative, and the slice expression panics at run time; no error is returned.
\<close>

theorem Data_short_snappy_input_panics:
  assumes "Flags p AND SnappyCompressed \<noteq> 0" and "Flags p AND Compressed = 0"
    and "(if Flags p AND Encrypted \<noteq> 0 then fst (decrypt cbc key (IV p) (Payload p))
          else Inr (Payload p)) = Inr res"
    and "length res < 10"
  shows "fst (Data cbc snappy p key) = Inl (RuntimePanic ''slice bounds out of range'') \<and>
         is_panic (fst (Data cbc snappy p key)) \<and>
         \<not> returns_error (fst (Data cbc snappy p key))"
  using assms
  by (auto simp: Data_def deflate_def subslice_def split: prod.splits sum.splits if_splits)

theorem Data_short_snappy_input_panics_witness:
  "fst (Data id_cipher corrupt_decoder (flagged_Packet 4 (bytes_of ''hello'')) []) =
     Inl (RuntimePanic ''slice bounds out of range'') \<and>
   is_panic (fst (Data id_cipher corrupt_decoder (flagged_Packet 4 (bytes_of ''hello'')) [])) \<and>
   \<not> returns_error (fst (Data id_cipher corrupt_decoder (flagged_Packet 4 (bytes_of ''hello'')) []))"
  using Data_short_snappy_input_panics [where p = "flagged_Packet 4 (bytes_of ''hello'')"
      and cbc = id_cipher and snappy = corrupt_decoder and key = "[]"
      and res = "bytes_of ''hello''"]
  by (simp add: flagged_Packet_def Encrypted_def Compressed_def SnappyCompressed_def
      bytes_of_def)

text \<open>
  C4, as stated: every packet with the Compressed flag makes \<^verbatim>\<open>Data\<close> fail with
  \<^verbatim>\<open>errFlagNotSupported("compressed")\<close>, whatever the other flags. This fails when
  Encrypted is set as well: decryption comes first, and with a key that is not 16 bytes
  long the result is \<^verbatim>\<open>errInvalidKey\<close>.
\<close>

theorem Data_Compressed_counterexample:
  "Flags (flagged_Packet 3 (bytes_of ''hello'')) AND Compressed \<noteq> 0 \<and>
   fst (Data id_cipher corrupt_decoder (flagged_Packet 3 (bytes_of ''hello'')) []) =
     Inl ErrInvalidKey \<and>
   fst (Data id_cipher corrupt_decoder (flagged_Packet 3 (bytes_of ''hello'')) []) \<noteq>
     Inl (ErrFlagNotSupported ''compressed'')"
  by (simp add: flagged_Packet_def Data_def decrypt_def Encrypted_def Compressed_def)

text \<open>
  C4, amended: every packet with the Compressed flag makes \<^verbatim>\<open>Data\<close> fail, whatever the
  payload, the SnappyCompressed flag and the unnamed flag bits. The failure is
  \<^verbatim>\<open>errFlagNotSupported("compressed")\<close> when Encrypted is clear or the decryption
  succeeds, and it is the failure of \<^verbatim>\<open>decrypt\<close> when Encrypted is set and the decryption
  fails.
\<close>

theorem Data_Compressed:
  assumes "Flags p AND Compressed \<noteq> 0"
  shows "fst (Data cbc snappy p key) =
     (if Flags p AND Encrypted \<noteq> 0 then
        (case fst (decrypt cbc key (IV p) (Payload p)) of
           Inl e \<Rightarrow> Inl e
         | Inr res \<Rightarrow> Inl (ErrFlagNotSupported ''compressed''))
      else Inl (ErrFlagNotSupported ''compressed''))"
  using assms by (simp add: Data_def split: prod.splits sum.splits)

theorem Data_Compressed_witness:
  "fst (Data id_cipher corrupt_decoder (flagged_Packet 6 (bytes_of ''hello'')) []) =
     Inl (ErrFlagNotSupported ''compressed'')"
  using Data_Compressed [where p = "flagged_Packet 6 (bytes_of ''hello'')" and cbc = id_cipher
      and snappy = corrupt_decoder and key = "[]"]
  by (simp add: flagged_Packet_def Encrypted_def Compressed_def)

text \<open>
  C10. A packet whose flags have none of the bits Encrypted, Compressed and
  SnappyCompressed, whatever its other bits, and any key: \<^verbatim>\<open>Data\<close> returns the payload
  as it is, with no error, and calls neither collaborator.
\<close>

theorem Data_no_relevant_flags:
  assumes "Flags p AND Encrypted = 0" and "Flags p AND Compressed = 0"
    and "Flags p AND SnappyCompressed = 0"
  shows "Data cbc snappy p key = (Inr (Payload p), [])"
  using assms by (simp add: Data_def)

theorem Data_no_relevant_flags_witness:
  "Data id_cipher corrupt_decoder (flagged_Packet 0xFFF8 [1, 2, 3]) [] = (Inr [1, 2, 3], [])"
  using Data_no_relevant_flags [where p = "flagged_Packet 0xFFF8 [1, 2, 3]" and cbc = id_cipher
      and snappy = corrupt_decoder and key = "[]"]
  by (simp add: flagged_Packet_def Encrypted_def Compressed_def SnappyCompressed_def)

section \<open>Decryption and padding\<close>

text \<open>
  C6. The contract of \<^verbatim>\<open>pkcs7unpad\<close>, in full: an empty buffer fails with "no data";
  with \<open>n\<close> the value of the last byte, \<open>n = 0\<close> or \<open>n > len(b)\<close> fails with "data is not
  padded"; one of the last \<open>n\<close> bytes different from \<open>n\<close> fails with "structure
  invalid"; otherwise the result is the buffer without its last \<open>n\<close> bytes.
\<close>

theorem pkcs7unpad_contract:
  "pkcs7unpad b =
     (if b = [] then Inl (ErrInvalidPadding ''no data'')
      else if unat (last b) = 0 \<or> unat (last b) > length b
        then Inl (ErrInvalidPadding ''data is not padded'')
      else if \<exists>x\<in>set (drop (length b - unat (last b)) b). unat x \<noteq> unat (last b)
        then Inl (ErrInvalidPadding ''structure invalid'')
      else Inr (take (length b - unat (last b)) b))"
proof (cases "b = []")
  case True
  then show ?thesis by (simp add: pkcs7unpad_def)
next
  case False
  then have idx: "index b (int (length b) - 1) = Inr (last b)"
    by (simp add: index_def last_conv_nth nat_diff_distrib')
  show ?thesis
  proof (cases "unat (last b) = 0 \<or> unat (last b) > length b")
    case True
    with False idx show ?thesis by (auto simp: pkcs7unpad_def)
  next
    case ok: False
    then have le: "unat (last b) \<le> length b" by simp
    have sl: "subslice b 0 (int (length b) - int (unat (last b))) =
        Inr (take (length b - unat (last b)) b)"
    proof -
      have "uint (last b) \<le> int (length b)"
        using le unfolding uint_nat by (simp only: of_nat_le_iff)
      then show ?thesis
        by (simp add: subslice_def nat_diff_distrib')
    qed
    have "(\<exists>j. 0 \<le> j \<and> j < unat (last b) \<and> b ! (length b - unat (last b) + j) \<noteq> last b) \<longleftrightarrow>
          (\<exists>x\<in>set (drop (length b - unat (last b)) b). unat x \<noteq> unat (last b))"
      using last_bytes_differ[OF le, of "last b"] by (simp add: word_unat_eq_iff[symmetric])
    then have loop: "pkcs7unpad_loop b (last b) (unat (last b)) 0 =
        (if \<exists>x\<in>set (drop (length b - unat (last b)) b). unat x \<noteq> unat (last b)
         then Some (ErrInvalidPadding ''structure invalid'') else None)"
      by (simp only: pkcs7unpad_loop_char[OF le])
    have "pkcs7unpad b =
        (case pkcs7unpad_loop b (last b) (unat (last b)) 0 of
           Some e \<Rightarrow> Inl e
         | None \<Rightarrow> Inr (take (length b - unat (last b)) b))"
      using False ok sl by (simp add: pkcs7unpad_def idx Let_def split: option.splits)
    also have "\<dots> =
        (if \<exists>x\<in>set (drop (length b - unat (last b)) b). unat x \<noteq> unat (last b)
         then Inl (ErrInvalidPadding ''structure invalid'')
         else Inr (take (length b - unat (last b)) b))"
      by (simp only: loop option.case if_distrib[of "case_option _ _"] cong: if_cong)
    finally show ?thesis
      using False ok by simp
  qed
qed

theorem pkcs7unpad_contract_witness:
  "pkcs7unpad [] = Inl (ErrInvalidPadding ''no data'') \<and>
   pkcs7unpad [0] = Inl (ErrInvalidPadding ''data is not padded'') \<and>
   pkcs7unpad [7, 3] = Inl (ErrInvalidPadding ''data is not padded'') \<and>
   pkcs7unpad [1, 2] = Inl (ErrInvalidPadding ''structure invalid'') \<and>
   pkcs7unpad [5, 2, 2] = Inr [5]"
  using pkcs7unpad_contract [of "[]"] pkcs7unpad_contract [of "[0]"]
    pkcs7unpad_contract [of "[7, 3]"] pkcs7unpad_contract [of "[1, 2]"]
    pkcs7unpad_contract [of "[5, 2, 2]"]
  by simp

text \<open>
  C7. A key that is not exactly 16 bytes long makes \<^verbatim>\<open>decrypt\<close> fail with
  \<^verbatim>\<open>errInvalidKey\<close>; a key of 16 bytes and a ciphertext whose length is not a multiple
  of 16 make it fail with \<^verbatim>\<open>errInvalidPadding("data is not padded")\<close>. In both cases no
  call to the cipher has been made, whatever the cipher is.
\<close>

theorem decrypt_key_and_length_checks:
  "(length key \<noteq> 16 \<longrightarrow> decrypt cbc key iv data = (Inl ErrInvalidKey, [])) \<and>
   (length key = 16 \<and> length data mod 16 \<noteq> 0 \<longrightarrow>
      decrypt cbc key iv data = (Inl (ErrInvalidPadding ''data is not padded''), []))"
  by (simp add: decrypt_def)

theorem decrypt_key_and_length_checks_witness:
  "decrypt id_cipher (replicate 15 0) (replicate 16 0) (replicate 16 0) =
     (Inl ErrInvalidKey, []) \<and>
   decrypt id_cipher (replicate 16 0) (replicate 16 0) (replicate 17 0) =
     (Inl (ErrInvalidPadding ''data is not padded''), [])"
  using decrypt_key_and_length_checks [where key = "replicate 15 0" and cbc = id_cipher
      and iv = "replicate 16 0" and data = "replicate 16 0"]
    decrypt_key_and_length_checks [where key = "replicate 16 0" and cbc = id_cipher
      and iv = "replicate 16 0" and data = "replicate 17 0"]
  by simp

section \<open>Framing\<close>




text \<open>
  C8, as stated: every input whose first 4 bytes are not \<^verbatim>\<open>UBNT\<close> makes
  \<^verbatim>\<open>ReadPacket\<close> fail with \<^verbatim>\<open>errInvalidMagic\<close>. This fails on an input shorter than a
  header: the length of the header read is checked before the magic.
\<close>

theorem ReadPacket_invalid_magic_counterexample:
  "take 4 (stream [(bytes_of ''ABCD'', None)]) \<noteq> bytes_of ''UBNT'' \<and>
   fst (ReadPacket [(bytes_of ''ABCD'', None)]) = Inl (ErrIncompletePacket ''header too short'') \<and>
   fst (ReadPacket [(bytes_of ''ABCD'', None)]) \<noteq> Inl ErrInvalidMagic"
  by (simp add: ReadPacket_def stream_def hlen_def bytes_of_def)

text \<open>
  C8, amended: \<^verbatim>\<open>ReadPacket\<close> fails with \<^verbatim>\<open>errInvalidMagic\<close> exactly when its header
  read delivers all 40 bytes without error and the first 4 of them are not \<^verbatim>\<open>UBNT\<close>. So
  every complete header with another magic is rejected with this error, and no other
  header field, and nothing in the payload, can cause it.
\<close>

theorem ReadPacket_invalid_magic:
  "fst (ReadPacket r) = Inl ErrInvalidMagic \<longleftrightarrow>
     (\<exists>head r1. Read r (replicate hlen 0) = ((hlen, None), head, r1) \<and>
        take 4 head \<noteq> bytes_of ''UBNT'')"
proof -
  obtain n err head r1 where rd: "Read r (replicate hlen 0) = ((n, err), head, r1)"
    by (metis surj_pair)
  show ?thesis
  proof (cases "err = None \<and> n = hlen")
    case True
    with rd have rd': "Read r (replicate hlen 0) = ((hlen, None), head, r1)" by simp
    show ?thesis
      unfolding invalid_magic_after_header[OF rd'] using rd' by simp
  next
    case False
    with rd have "fst (ReadPacket r) \<noteq> Inl ErrInvalidMagic"
      by (auto simp: ReadPacket_def split: option.splits)
    with rd False show ?thesis by auto
  qed
qed

text \<open>
  C9, as stated: every header with the magic \<^verbatim>\<open>UBNT\<close> and a payload length field of 0
  makes \<^verbatim>\<open>ReadPacket\<close> fail with
  \<^verbatim>\<open>errIncompletePacket("header does not define payload length")\<close>. This fails when
  the byte source reports an error together with the header, as a source does that ends
  right after it and says \<^verbatim>\<open>io.EOF\<close> with its last bytes: the error of the header
  read is looked at before the header, and \<^verbatim>\<open>ReadPacket\<close> returns \<^verbatim>\<open>io.EOF\<close>.
\<close>

theorem ReadPacket_zero_length_counterexample:
  "take 4 (stream [(header_with [0, 0] [0, 0, 0, 0], Some EOF)]) = bytes_of ''UBNT'' \<and>
   BigEndian_Uint32 (take 4 (drop 36 (stream [(header_with [0, 0] [0, 0, 0, 0], Some EOF)]))) =
     Inr 0 \<and>
   fst (ReadPacket [(header_with [0, 0] [0, 0, 0, 0], Some EOF)]) = Inl (IOErr EOF) \<and>
   fst (ReadPacket [(header_with [0, 0] [0, 0, 0, 0], Some EOF)]) \<noteq>
     Inl (ErrIncompletePacket ''header does not define payload length'')"
  by (simp add: ReadPacket_def stream_def header_with_def hlen_def bytes_of_def)

text \<open>
  C9, amended: a header with the magic \<^verbatim>\<open>UBNT\<close> and a payload length field of 0 that
  the header read delivers in full, all 40 bytes and no error, makes \<^verbatim>\<open>ReadPacket\<close>
  fail with \<^verbatim>\<open>errIncompletePacket("header does not define payload length")\<close>; and
  whatever the byte source, no packet with an empty payload is returned: a packet that
  is returned has a payload of at least one byte and a header whose length field is
  not 0.
\<close>

theorem ReadPacket_zero_length:
  "(Read r (replicate hlen 0) = ((hlen, None), head, r1) \<and>
    take 4 head = bytes_of ''UBNT'' \<and>
    BigEndian_Uint32 (take 4 (drop 36 head)) = Inr 0 \<longrightarrow>
      ReadPacket r =
        (Inl (ErrIncompletePacket ''header does not define payload length''), r1)) \<and>
   (ReadPacket r = (Inr pkt, r2) \<longrightarrow>
      Payload pkt \<noteq> [] \<and> BigEndian_Uint32 (take 4 (drop 36 (stream r))) \<noteq> Inr 0)"
proof (intro conjI impI)
  assume a: "Read r (replicate hlen 0) = ((hlen, None), head, r1) \<and>
    take 4 head = bytes_of ''UBNT'' \<and>
    BigEndian_Uint32 (take 4 (drop 36 head)) = Inr 0"
  then have rd: "Read r (replicate hlen 0) = ((hlen, None), head, r1)" by simp
  show "ReadPacket r =
    (Inl (ErrIncompletePacket ''header does not define payload length''), r1)"
    unfolding ReadPacket_after_header[OF rd] read_fields_header[OF header_of_Read(1)[OF rd]]
    using a by simp
next
  assume "ReadPacket r = (Inr pkt, r2)"
  then show "Payload pkt \<noteq> []"
    by (rule returned_payload_nonempty(1))
next
  assume "ReadPacket r = (Inr pkt, r2)"
  then show "BigEndian_Uint32 (take 4 (drop 36 (stream r))) \<noteq> Inr 0"
    by (rule returned_payload_nonempty(2))
qed

theorem ReadPacket_zero_length_witness:
  "ReadPacket empty_payload_reader =
     (Inl (ErrIncompletePacket ''header does not define payload length''), []) \<and>
   Payload hello_Packet \<noteq> [] \<and>
   BigEndian_Uint32 (take 4 (drop 36 (stream hello_reader))) \<noteq> Inr 0"
  using ReadPacket_zero_length [where r = empty_payload_reader
      and head = "header_with [0, 0] [0, 0, 0, 0]" and ?r1.0 = "[]"]
    ReadPacket_zero_length [where r = hello_reader and pkt = hello_Packet
      and ?r2.0 = "[(bytes_of ''!'', None)]"]
    hello_run
  by (simp add: empty_payload_reader_def header_with_def hlen_def bytes_of_def)

text \<open>
  C5. When \<^verbatim>\<open>ReadPacket\<close> returns a packet, the byte source held a 40-byte header whose
  last field, read as a big-endian 32-bit number, is the length of the packet's payload;
  the payload is the run of that many bytes which follows the header in the source, and
  the source is left just behind it.
\<close>

theorem ReadPacket_payload:
  assumes "ReadPacket r = (Inr pkt, r2)"
  shows "\<exists>v. BigEndian_Uint32 (take 4 (drop 36 (stream r))) = Inr v \<and>
           length (Payload pkt) = unat v \<and>
           Payload pkt = take (unat v) (drop hlen (stream r)) \<and>
           stream r2 = drop (hlen + unat v) (stream r)"
proof -
  obtain n err head r1 where rd: "Read r (replicate hlen 0) = ((n, err), head, r1)"
    by (metis surj_pair)
  from assms rd have "err = None" "n = hlen"
    by (auto simp: ReadPacket_def split: option.splits if_splits)
  with rd have rd': "Read r (replicate hlen 0) = ((hlen, None), head, r1)" by simp
  note H = header_of_Read[OF rd']
  have f36: "take 4 (drop 36 head) = take 4 (drop 36 (stream r))"
    by (subst H(2)) (simp add: hlen_def drop_take)
  obtain v where v: "BigEndian_Uint32 (take 4 (drop 36 head)) = Inr v"
    using BigEndian_Uint32_total[of "take 4 (drop 36 head)"] H(1) by (auto simp: hlen_def)
  from assms obtain pkt0 m buf where
    pkt0: "read_fields fields head 0 zero_Packet = Inr pkt0"
    and rf: "ReadFull r1 (Payload pkt0) = ((m, None), buf, r2)"
    and pkt: "pkt = pkt0\<lparr>Payload := buf\<rparr>"
    unfolding ReadPacket_after_header[OF rd']
    by (auto split: sum.splits if_splits prod.splits option.splits)
  from pkt0 have "Payload pkt0 = replicate (unat v) 0"
    unfolding read_fields_header[OF H(1)] using v by (auto split: if_splits)
  with ReadFull_success[OF rf] H(3) pkt
  have "length (Payload pkt) = unat v" "Payload pkt = take (unat v) (drop hlen (stream r))"
    "stream r2 = drop (hlen + unat v) (stream r)"
    by (simp_all add: add.commute)
  with v f36 show ?thesis by auto
qed

theorem ReadPacket_payload_witness:
  "ReadPacket hello_reader = (Inr hello_Packet, [(bytes_of ''!'', None)]) \<and>
   BigEndian_Uint32 (take 4 (drop 36 (stream hello_reader))) = Inr 5 \<and>
   length (Payload hello_Packet) = 5 \<and>
   Payload hello_Packet = take 5 (drop hlen (stream hello_reader)) \<and>
   stream [(bytes_of ''!'', None)] = drop (hlen + 5) (stream hello_reader)"
proof -
  from ReadPacket_payload[OF hello_run] obtain v where
    v: "BigEndian_Uint32 (take 4 (drop 36 (stream hello_reader))) = Inr v"
      "length (Payload hello_Packet) = unat v"
      "Payload hello_Packet = take (unat v) (drop hlen (stream hello_reader))"
      "stream [(bytes_of ''!'', None)] = drop (hlen + unat v) (stream hello_reader)"
    by blast
  have "BigEndian_Uint32 (take 4 (drop 36 (stream hello_reader))) = Inr 5"
    by (simp add: hello_reader_def stream_def header_with_def bytes_of_def)
  with v(1) have "v = 5" by simp
  with v hello_run show ?thesis by simp
qed

end
